theory Spec2Isabelle
  imports Main "HOL-Library.Multiset" "HOL-Library.Word"
begin

unbundle bit_operations_syntax

section \<open>Typelists (typelist.hpp)\<close>

text \<open>
  A \<^verbatim>\<open>typelist<Ts...>\<close> is a compile-time sequence of types. It is embedded as a HOL
  list over a type \<open>'t\<close> of C++ types, compared with \<^verbatim>\<open>std::is_same\<close> (HOL equality).
  A metafunction whose instantiation the compiler rejects (no matching specialisation, no
  member \<^verbatim>\<open>type\<close>) returns \<open>None\<close>.

  The recursive metafunctions select their specialisation with \<^verbatim>\<open>is_empty_v<List>\<close> and
  then read \<^verbatim>\<open>front_t<List>\<close> and \<^verbatim>\<open>pop_front_t<List>\<close>; in the embedding that
  dispatch is the pattern match on \<open>[]\<close> and \<open>head # tail\<close>.
\<close>

type_synonym 't typelist = "'t list"

fun front :: "'t typelist \<Rightarrow> 't option" where
  "front (Head # Tail) = Some Head"
| "front [] = None"

fun pop_front :: "'t typelist \<Rightarrow> 't typelist option" where
  "pop_front (Head # Tail) = Some Tail"
| "pop_front [] = None"

definition push_front :: "'t typelist \<Rightarrow> 't \<Rightarrow> 't typelist" where
  "push_front Elements NewElement = NewElement # Elements"

fun nth_element :: "'t typelist \<Rightarrow> nat \<Rightarrow> 't option" where
  "nth_element List 0 = front List"
| "nth_element List (Suc N) =
     (case pop_front List of None \<Rightarrow> None | Some Tail \<Rightarrow> nth_element Tail N)"

fun is_empty :: "'t typelist \<Rightarrow> bool" where
  "is_empty [] = True"
| "is_empty (Head # Tail) = False"

fun find_index_of :: "'t typelist \<Rightarrow> 't \<Rightarrow> nat \<Rightarrow> nat option" where
  "find_index_of (Head # Tail) T N =
     (if Head = T then Some N else find_index_of Tail T (N + 1))"
| "find_index_of [] T N = None"

fun push_back_impl :: "'t typelist \<Rightarrow> 't \<Rightarrow> 't typelist" where
  "push_back_impl (head # tail) NewElement =
     (let new_tail = push_back_impl tail NewElement in push_front new_tail head)"
| "push_back_impl [] NewElement = push_front [] NewElement"

definition push_back :: "'t typelist \<Rightarrow> 't \<Rightarrow> 't typelist" where
  "push_back List NewElement = push_back_impl List NewElement"

fun reverse :: "'t typelist \<Rightarrow> 't typelist" where
  "reverse (Head # Tail) = push_back (reverse Tail) Head"
| "reverse [] = []"

definition pop_back :: "'t typelist \<Rightarrow> 't typelist option" where
  "pop_back List = map_option reverse (pop_front (reverse List))"

text \<open>
  \<^verbatim>\<open>largest_type\<close> reads \<^verbatim>\<open>sizeof\<close> of each element and falls back to \<^verbatim>\<open>char\<close> on the
  empty list. The size of a type is fixed by the platform, not by this header, so
  \<open>sizeof\<close> and the type \<open>char\<close> are parameters.
\<close>

fun largest_type :: "('t \<Rightarrow> nat) \<Rightarrow> 't \<Rightarrow> 't typelist \<Rightarrow> 't" where
  "largest_type sizeof char_t (contender # Tail) =
     (let best = largest_type sizeof char_t Tail
      in if sizeof contender \<ge> sizeof best then contender else best)"
| "largest_type sizeof char_t [] = char_t"

fun insert_sorted :: "('t \<Rightarrow> 't \<Rightarrow> bool) \<Rightarrow> 't typelist \<Rightarrow> 't \<Rightarrow> 't typelist" where
  "insert_sorted Compare (Head # Tail) Element =
     (let new_tail = (if Compare Element Head then Head # Tail
                      else insert_sorted Compare Tail Element);
          new_head = (if Compare Element Head then Element else Head)
      in push_front new_tail new_head)"
| "insert_sorted Compare [] Element = push_front [] Element"

fun insertion_sort :: "('t \<Rightarrow> 't \<Rightarrow> bool) \<Rightarrow> 't typelist \<Rightarrow> 't typelist" where
  "insertion_sort Compare (Head # Tail) =
     insert_sorted Compare (insertion_sort Compare Tail) Head"
| "insertion_sort Compare [] = []"

text \<open>
  The specialisations for \<^verbatim>\<open>std::index_sequence\<close> (typelist.hpp, lines 284 to 311) and
  for \<^verbatim>\<open>tuple\<close> (tuple.cpp, lines 187 to 191) replace the generic \<^verbatim>\<open>push_back\<close> by
  a pack expansion \<^verbatim>\<open>Values..., New\<close>; \<^verbatim>\<open>reverse\<close> instantiated at such a list uses it.
\<close>

definition push_back_pack :: "'t list \<Rightarrow> 't \<Rightarrow> 't list" where
  "push_back_pack Values New = Values @ [New]"

fun reverse_pack :: "'t list \<Rightarrow> 't list" where
  "reverse_pack (Head # Tail) = push_back_pack (reverse_pack Tail) Head"
| "reverse_pack [] = []"

section \<open>Tuples (tuple.cpp)\<close>

text \<open>
  \<^verbatim>\<open>tuple<Head, Tail...>\<close> derives from \<^verbatim>\<open>tuple_elt<sizeof...(Tail), Head>\<close>, which
  stores the head, and from \<^verbatim>\<open>tuple<Tail...>\<close>; \<^verbatim>\<open>tuple<>\<close> is empty. The slots have
  different C++ types, so a slot value is an element of one type \<open>'a\<close> of values.
\<close>

datatype 'a tuple = Tuple0 | Tuple 'a "'a tuple"

fun get_head :: "'a tuple \<Rightarrow> 'a option" where
  "get_head (Tuple head tail) = Some head"
| "get_head Tuple0 = None"

fun get_tail :: "'a tuple \<Rightarrow> 'a tuple option" where
  "get_tail (Tuple head tail) = Some tail"
| "get_tail Tuple0 = None"

text \<open>\<^verbatim>\<open>sizeof...(Types)\<close> of a \<^verbatim>\<open>tuple<Types...>\<close>, and its slots in declaration order.\<close>

fun arity :: "'a tuple \<Rightarrow> nat" where
  "arity Tuple0 = 0"
| "arity (Tuple head tail) = Suc (arity tail)"

fun slots :: "'a tuple \<Rightarrow> 'a list" where
  "slots Tuple0 = []"
| "slots (Tuple head tail) = head # slots tail"

text \<open>
  \<^verbatim>\<open>tuple_get<N>::apply\<close> follows \<^verbatim>\<open>get_tail()\<close> \<open>N\<close> times and returns a reference to
  the head found there. No overload takes \<^verbatim>\<open>tuple<>\<close>: an index past the end is rejected
  by the compiler (\<open>None\<close>).
\<close>

fun tuple_get :: "nat \<Rightarrow> 'a tuple \<Rightarrow> 'a option" where
  "tuple_get N Tuple0 = None"
| "tuple_get 0 (Tuple head tail) = Some head"
| "tuple_get (Suc N) (Tuple head tail) = tuple_get N tail"

text \<open>
  Constructing a slot calls a constructor of the element type once:
  \<^verbatim>\<open>tuple_elt(U&& rhs) : value_(std::forward<U>(rhs))\<close>. The calls are recorded, oldest
  first, in a log of the values the element constructors were given; references passed
  along (\<^verbatim>\<open>get\<close>, \<^verbatim>\<open>std::forward\<close>) leave the log alone.
\<close>

type_synonym 'a ctor_log = "'a list"

definition tuple_elt_ctor :: "'a \<Rightarrow> 'a ctor_log \<Rightarrow> 'a \<times> 'a ctor_log" where
  "tuple_elt_ctor rhs log = (rhs, log @ [rhs])"

text \<open>
  The variadic constructor \<^verbatim>\<open>tuple(VHead&& head, VTail&&... tail)\<close> initialises the
  head element, then the tail tuple from the remaining arguments.
\<close>

fun tuple_ctor :: "'a list \<Rightarrow> 'a ctor_log \<Rightarrow> 'a tuple \<times> 'a ctor_log" where
  "tuple_ctor [] log = (Tuple0, log)"
| "tuple_ctor (head # tail) log =
     (let (HeadElt, log1) = tuple_elt_ctor head log;
          (TailElt, log2) = tuple_ctor tail log1
      in (Tuple HeadElt TailElt, log2))"

definition make_tuple :: "'a list \<Rightarrow> 'a ctor_log \<Rightarrow> 'a tuple \<times> 'a ctor_log" where
  "make_tuple args log = tuple_ctor args log"

text \<open>
  \<^verbatim>\<open>operator==\<close>: one overload for two empty tuples, one for two non-empty tuples whose
  tails have the same number of types. For other pairs no overload is viable and the
  comparison is rejected by the compiler (\<open>None\<close>), as it is when a pair of slots has no
  \<^verbatim>\<open>==\<close> (the element comparison \<open>eq\<close> returns \<open>None\<close>).
\<close>

fun tuple_eq :: "('a \<Rightarrow> 'b \<Rightarrow> bool option) \<Rightarrow> 'a tuple \<Rightarrow> 'b tuple \<Rightarrow> bool option" where
  "tuple_eq eq Tuple0 Tuple0 = Some True"
| "tuple_eq eq (Tuple head1 tail1) (Tuple head2 tail2) =
     (case eq head1 head2 of
        None \<Rightarrow> None
      | Some heads \<Rightarrow>
          (case tuple_eq eq tail1 tail2 of
             None \<Rightarrow> None
           | Some tails \<Rightarrow> Some (heads \<and> tails)))"
| "tuple_eq eq Tuple0 (Tuple head2 tail2) = None"
| "tuple_eq eq (Tuple head1 tail1) Tuple0 = None"

text \<open>
  \<^verbatim>\<open>print_tuple\<close> and \<^verbatim>\<open>operator<<\<close>. The stream is the string written so far;
  \<open>put\<close> is the element type's own \<^verbatim>\<open>operator<<\<close>.
\<close>

fun print_tuple :: "('a \<Rightarrow> string) \<Rightarrow> string \<Rightarrow> 'a tuple \<Rightarrow> bool \<Rightarrow> string" where
  "print_tuple put os Tuple0 is_first = os @ (if is_first then ''('' else '')'')"
| "print_tuple put os (Tuple head tail) is_first =
     print_tuple put (os @ (if is_first then ''('' else '', '') @ put head) tail False"

definition shift_out :: "('a \<Rightarrow> string) \<Rightarrow> string \<Rightarrow> 'a tuple \<Rightarrow> string" where
  "shift_out put os t = print_tuple put os t True"

text \<open>
  \<^verbatim>\<open>select_tuple\<close> passes \<^verbatim>\<open>get<Indices>(t)...\<close> to \<^verbatim>\<open>make_tuple\<close>, and
  \<^verbatim>\<open>reverse_tuple\<close> selects with the reversed \<^verbatim>\<open>std::index_sequence_for<Types...>\<close>.
\<close>

definition index_sequence_for :: "'a tuple \<Rightarrow> nat list" where
  "index_sequence_for t = [0..<arity t]"

definition select_tuple ::
  "'a tuple \<Rightarrow> nat list \<Rightarrow> 'a ctor_log \<Rightarrow> ('a tuple \<times> 'a ctor_log) option" where
  "select_tuple t Indices log =
     (case those (map (\<lambda>I. tuple_get I t) Indices) of
        None \<Rightarrow> None
      | Some refs \<Rightarrow> Some (make_tuple refs log))"

definition reverse_tuple :: "'a tuple \<Rightarrow> 'a ctor_log \<Rightarrow> ('a tuple \<times> 'a ctor_log) option" where
  "reverse_tuple t log = select_tuple t (reverse_pack (index_sequence_for t)) log"

subsection \<open>The values of the tuple test\<close>

text \<open>
  \<^verbatim>\<open>make_tuple(42, 3.14, "downdemo")\<close> is a \<^verbatim>\<open>tuple<int, double, const char*>\<close>. An
  \<^verbatim>\<open>int\<close> is a 32-bit word, a \<^verbatim>\<open>double\<close> its 64-bit IEEE 754 pattern, a
  \<^verbatim>\<open>const char*\<close> the address of a string literal. \<^verbatim>\<open>==\<close> on doubles is false on a
  NaN and identifies the two zeros; on pointers it compares addresses. Between an
  \<^verbatim>\<open>int\<close> and a \<^verbatim>\<open>double\<close> the \<^verbatim>\<open>int\<close> is converted to \<^verbatim>\<open>double\<close> first, which
  is exact for 32 bits: sign, exponent \<open>1023 + \<lfloor>log\<^sub>2 m\<rfloor>\<close> and the bits of the
  magnitude \<open>m\<close> below its leading one, moved to the top of the 52-bit fraction. A
  pointer has no \<^verbatim>\<open>==\<close> with an \<^verbatim>\<open>int\<close> or a \<^verbatim>\<open>double\<close> value (\<open>None\<close>).
\<close>

datatype val = IntV "32 word" | DoubleV "64 word" | CStrV nat

definition double_is_nan :: "64 word \<Rightarrow> bool" where
  "double_is_nan w = (0x7FF0000000000000 < (w AND 0x7FFFFFFFFFFFFFFF))"

definition double_is_zero :: "64 word \<Rightarrow> bool" where
  "double_is_zero w = ((w AND 0x7FFFFFFFFFFFFFFF) = 0)"

definition double_eq :: "64 word \<Rightarrow> 64 word \<Rightarrow> bool" where
  "double_eq a b =
     (\<not> double_is_nan a \<and> \<not> double_is_nan b \<and> (a = b \<or> (double_is_zero a \<and> double_is_zero b)))"

fun floor_log2 :: "nat \<Rightarrow> nat" where
  "floor_log2 n = (if n < 2 then 0 else Suc (floor_log2 (n div 2)))"

declare floor_log2.simps [simp del]

definition double_of_int :: "32 word \<Rightarrow> 64 word" where
  "double_of_int a =
     (let i = sint a; m = nat \<bar>i\<bar>; e = floor_log2 m
      in if m = 0 then 0
         else (if i < 0 then 0x8000000000000000 else 0)
              + push_bit 52 (of_nat (1023 + e))
              + of_nat ((m - 2 ^ e) * 2 ^ (52 - e)))"

fun val_eq :: "val \<Rightarrow> val \<Rightarrow> bool option" where
  "val_eq (IntV a) (IntV b) = Some (a = b)"
| "val_eq (DoubleV a) (DoubleV b) = Some (double_eq a b)"
| "val_eq (IntV a) (DoubleV b) = Some (double_eq (double_of_int a) b)"
| "val_eq (DoubleV a) (IntV b) = Some (double_eq a (double_of_int b))"
| "val_eq (CStrV p) (CStrV q) = Some (p = q)"
| "val_eq a b = None"

text \<open>\<^verbatim>\<open>std::strcmp\<close> on the characters two pointers address: the sign of the first difference.\<close>

fun strcmp :: "string \<Rightarrow> string \<Rightarrow> int" where
  "strcmp [] [] = 0"
| "strcmp [] (y # ys) = - 1"
| "strcmp (x # xs) [] = 1"
| "strcmp (x # xs) (y # ys) =
     (if x = y then strcmp xs ys
      else if (of_char x :: nat) < of_char y then - 1 else 1)"

definition double_3_14 :: "64 word" where
  "double_3_14 = 0x40091EB851EB851F"

definition test_tuple :: "nat \<Rightarrow> val tuple" where
  "test_tuple downdemo = fst (make_tuple [IntV 42, DoubleV double_3_14, CStrV downdemo] [])"

section \<open>Variant\<close>

text \<open>
  A \<^verbatim>\<open>variant<Types...>\<close> is a \<^verbatim>\<open>variant_storage<Types...>\<close> (a raw buffer and an
  \<^verbatim>\<open>unsigned char\<close> discriminator) together with one \<^verbatim>\<open>variant_choice<T, Types...>\<close>
  per alternative. The alternatives are types \<open>'t\<close>, their values are of type \<open>'v\<close>, and
  the exceptions their members throw are of type \<open>'x\<close>.

  What ends a call other than a normal return:
  \<^item> \<open>ill_formed\<close>: the call does not compile (\<^verbatim>\<open>find_index_of_t\<close> has no member
    \<^verbatim>\<open>type\<close> because \<open>T\<close> is not an alternative, or the typelist is empty);
  \<^item> \<open>empty_variant\<close>: the exception \<^verbatim>\<open>jc::empty_variant\<close>;
  \<^item> \<open>assertion_failed\<close>: \<^verbatim>\<open>assert(is<T>())\<close> fails and the program aborts;
  \<^item> \<open>thrown x\<close>: a member of an alternative type throws \<open>x\<close>;
  \<^item> \<open>undefined_behaviour\<close>: the buffer is read as a \<open>T\<close> although no object of
    type \<open>T\<close> lives in it.
\<close>

datatype 'x failure =
  ill_formed | empty_variant | assertion_failed | thrown 'x | undefined_behaviour

text \<open>
  The members of the alternative types that the variant calls. A constructor either
  throws or yields the new object. An assignment operator takes the value of its target
  and its argument, and returns the exception it throws, if any, with the value the
  target has afterwards.
\<close>

record ('t, 'v, 'x) members =
  default_ctor :: "'t \<Rightarrow> 'x + 'v"
  copy_ctor :: "'t \<Rightarrow> 'v \<Rightarrow> 'x + 'v"
  move_ctor :: "'t \<Rightarrow> 'v \<Rightarrow> 'x + 'v"
  copy_assign :: "'t \<Rightarrow> 'v \<Rightarrow> 'v \<Rightarrow> 'x option \<times> 'v"
  move_assign :: "'t \<Rightarrow> 'v \<Rightarrow> 'v \<Rightarrow> 'x option \<times> 'v"

text \<open>The argument of an overload pair: \<^verbatim>\<open>const T&\<close> or \<^verbatim>\<open>T&&\<close>.\<close>

datatype value_category = lvalue | rvalue

definition construct :: "('t, 'v, 'x) members \<Rightarrow> value_category \<Rightarrow> 't \<Rightarrow> 'v \<Rightarrow> 'x + 'v" where
  "construct M vc T value =
     (case vc of lvalue \<Rightarrow> copy_ctor M T value | rvalue \<Rightarrow> move_ctor M T value)"

definition assign ::
  "('t, 'v, 'x) members \<Rightarrow> value_category \<Rightarrow> 't \<Rightarrow> 'v \<Rightarrow> 'v \<Rightarrow> 'x option \<times> 'v" where
  "assign M vc T target value =
     (case vc of lvalue \<Rightarrow> copy_assign M T target value
               | rvalue \<Rightarrow> move_assign M T target value)"

text \<open>
  What happens to the buffer and the discriminator, in order: a destructor call, a
  placement \<^verbatim>\<open>new\<close>, an assignment onto the live object, a \<^verbatim>\<open>set_discriminator\<close>.
\<close>

datatype ('t, 'v) event =
  Destroyed 't | Constructed 't 'v | Assigned 't 'v | Discriminator_set "8 word"

text \<open>
  \<^verbatim>\<open>variant_storage\<close>: \<open>buffer\<close> is the object that lives in \<^verbatim>\<open>buffer_\<close>, with its
  type, or \<open>None\<close> for raw bytes; \<open>discriminator\<close> is \<^verbatim>\<open>discriminator_\<close>. The trace
  of events is not part of the C++ object.
\<close>

record ('t, 'v) variant_storage =
  buffer :: "('t \<times> 'v) option"
  discriminator :: "8 word"
  trace :: "('t, 'v) event list"

definition storage_init :: "('t, 'v) variant_storage" where
  "storage_init = \<lparr>buffer = None, discriminator = 0, trace = []\<rparr>"

definition get_discriminator :: "('t, 'v) variant_storage \<Rightarrow> 8 word" where
  "get_discriminator v = discriminator v"

definition set_discriminator :: "('t, 'v) variant_storage \<Rightarrow> 8 word \<Rightarrow> ('t, 'v) variant_storage" where
  "set_discriminator v d = v\<lparr>discriminator := d, trace := trace v @ [Discriminator_set d]\<rparr>"

text \<open>
  \<^verbatim>\<open>static constexpr unsigned Discriminator = find_index_of_t<typelist<Types...>, T>::value + 1\<close>.
  A pack of \<open>2 ^ 32\<close> types cannot be instantiated, so the \<^verbatim>\<open>unsigned\<close> holds the index
  plus one exactly and is a natural number here. The stored discriminator is an
  \<^verbatim>\<open>unsigned char\<close>: passing \<^verbatim>\<open>Discriminator\<close> to \<^verbatim>\<open>set_discriminator\<close> converts it
  modulo 256 (\<open>of_nat\<close>), and a comparison with it promotes the stored byte (\<open>unat\<close>).
\<close>

definition Discriminator :: "'t typelist \<Rightarrow> 't \<Rightarrow> nat option" where
  "Discriminator Types T = map_option (\<lambda>index. index + 1) (find_index_of Types T 0)"

text \<open>
  \<^verbatim>\<open>placement_new\<close> and \<^verbatim>\<open>destructor_call\<close> are the two statements
  \<^verbatim>\<open>new (get_raw_buffer()) T(...)\<close> (once the constructor has returned) and
  \<^verbatim>\<open>get_buffer_as<T>()->~T()\<close>.
\<close>

definition placement_new :: "('t, 'v) variant_storage \<Rightarrow> 't \<Rightarrow> 'v \<Rightarrow> ('t, 'v) variant_storage" where
  "placement_new v T obj = v\<lparr>buffer := Some (T, obj), trace := trace v @ [Constructed T obj]\<rparr>"

definition destructor_call :: "('t, 'v) variant_storage \<Rightarrow> 't \<Rightarrow> ('t, 'v) variant_storage" where
  "destructor_call v T = v\<lparr>buffer := None, trace := trace v @ [Destroyed T]\<rparr>"

text \<open>\<^verbatim>\<open>variant_choice<T, Types...>::destroy\<close>.\<close>

definition choice_destroy ::
  "'t typelist \<Rightarrow> 't \<Rightarrow> ('t, 'v) variant_storage \<Rightarrow> bool \<times> ('t, 'v) variant_storage" where
  "choice_destroy Types T v =
     (if Discriminator Types T = Some (unat (get_discriminator v))
      then (True, destructor_call v T)
      else (False, v))"

text \<open>
  \<^verbatim>\<open>variant::destroy\<close>: the fold \<^verbatim>\<open>(variant_choice<Types, Types...>::destroy(), ...)\<close>
  from left to right, then \<^verbatim>\<open>set_discriminator(0)\<close>. The destructor \<^verbatim>\<open>~variant\<close>
  calls it.
\<close>

definition variant_destroy :: "'t typelist \<Rightarrow> ('t, 'v) variant_storage \<Rightarrow> ('t, 'v) variant_storage" where
  "variant_destroy Types v =
     set_discriminator (foldl (\<lambda>s T. snd (choice_destroy Types T s)) v Types) 0"

definition variant_dtor :: "'t typelist \<Rightarrow> ('t, 'v) variant_storage \<Rightarrow> ('t, 'v) variant_storage" where
  "variant_dtor Types v = variant_destroy Types v"

text \<open>
  \<^verbatim>\<open>variant_choice<T, Types...>::operator=\<close>, for \<^verbatim>\<open>const T&\<close> and \<^verbatim>\<open>T&&\<close>. The
  result is the exception that leaves the call, if any, and the variant afterwards.
\<close>

definition choice_assign ::
  "('t, 'v, 'x) members \<Rightarrow> 't typelist \<Rightarrow> value_category \<Rightarrow> 't \<Rightarrow> 'v \<Rightarrow>
   ('t, 'v) variant_storage \<Rightarrow> 'x failure option \<times> ('t, 'v) variant_storage" where
  "choice_assign M Types vc T value v =
     (case Discriminator Types T of
        None \<Rightarrow> (Some ill_formed, v)
      | Some D \<Rightarrow>
          if unat (get_discriminator v) = D then
            (case buffer v of
               None \<Rightarrow> (Some undefined_behaviour, v)
             | Some (T', target) \<Rightarrow>
                 if T' \<noteq> T then (Some undefined_behaviour, v)
                 else
                   (let (exn, target') = assign M vc T target value
                    in (map_option thrown exn,
                        v\<lparr>buffer := Some (T, target'), trace := trace v @ [Assigned T value]\<rparr>)))
          else
            (let v1 = variant_destroy Types v
             in case construct M vc T value of
                  Inl x \<Rightarrow> (Some (thrown x), v1)
                | Inr obj \<Rightarrow> (None, set_discriminator (placement_new v1 T obj) (of_nat D))))"

text \<open>
  The constructors \<^verbatim>\<open>variant_choice(const T&)\<close> and \<^verbatim>\<open>variant_choice(T&&)\<close>, which
  \<^verbatim>\<open>variant\<close> inherits, and the default constructor
  \<^verbatim>\<open>variant() { *this = front_t<typelist<Types...>>(); }\<close>. A constructor that throws
  leaves no object.
\<close>

definition choice_ctor ::
  "('t, 'v, 'x) members \<Rightarrow> 't typelist \<Rightarrow> value_category \<Rightarrow> 't \<Rightarrow> 'v \<Rightarrow>
   'x failure + ('t, 'v) variant_storage" where
  "choice_ctor M Types vc T value =
     (case Discriminator Types T of
        None \<Rightarrow> Inl ill_formed
      | Some D \<Rightarrow>
          (case construct M vc T value of
             Inl x \<Rightarrow> Inl (thrown x)
           | Inr obj \<Rightarrow> Inr (set_discriminator (placement_new storage_init T obj) (of_nat D))))"

definition variant_default_ctor ::
  "('t, 'v, 'x) members \<Rightarrow> 't typelist \<Rightarrow> 'x failure + ('t, 'v) variant_storage" where
  "variant_default_ctor M Types =
     (case front Types of
        None \<Rightarrow> Inl ill_formed
      | Some First \<Rightarrow>
          (case default_ctor M First of
             Inl x \<Rightarrow> Inl (thrown x)
           | Inr temporary \<Rightarrow>
               (case choice_assign M Types rvalue First temporary storage_init of
                  (None, v) \<Rightarrow> Inr v
                | (Some f, v) \<Rightarrow> Inl f)))"

text \<open>\<^verbatim>\<open>empty\<close>, \<^verbatim>\<open>is<T>\<close> (named \<open>is_T\<close>), \<^verbatim>\<open>get<T>\<close>, \<^verbatim>\<open>variant_visit_impl\<close> and \<^verbatim>\<open>visit\<close>.\<close>

definition empty :: "('t, 'v) variant_storage \<Rightarrow> bool" where
  "empty v = (get_discriminator v = 0)"

definition is_T :: "'t typelist \<Rightarrow> 't \<Rightarrow> ('t, 'v) variant_storage \<Rightarrow> bool option" where
  "is_T Types T v =
     (case Discriminator Types T of
        None \<Rightarrow> None
      | Some D \<Rightarrow> Some (unat (get_discriminator v) = D))"

definition get :: "'t typelist \<Rightarrow> 't \<Rightarrow> ('t, 'v) variant_storage \<Rightarrow> 'x failure + 'v" where
  "get Types T v =
     (case is_T Types T v of
        None \<Rightarrow> Inl ill_formed
      | Some holds \<Rightarrow>
          if empty v then Inl empty_variant
          else if \<not> holds then Inl assertion_failed
          else (case buffer v of
                  None \<Rightarrow> Inl undefined_behaviour
                | Some (T', obj) \<Rightarrow> if T' = T then Inr obj else Inl undefined_behaviour))"

fun variant_visit_impl ::
  "'t typelist \<Rightarrow> ('t, 'v) variant_storage \<Rightarrow> ('t \<Rightarrow> 'v \<Rightarrow> 'x + 'r) \<Rightarrow> 't typelist \<Rightarrow>
   'x failure + 'r" where
  "variant_visit_impl Types v vis (Head # Tail) =
     (case is_T Types Head v of
        None \<Rightarrow> Inl ill_formed
      | Some True \<Rightarrow>
          (case get Types Head v of
             Inl f \<Rightarrow> Inl f
           | Inr obj \<Rightarrow> (case vis Head obj of Inl x \<Rightarrow> Inl (thrown x) | Inr r \<Rightarrow> Inr r))
      | Some False \<Rightarrow>
          if Tail \<noteq> [] then variant_visit_impl Types v vis Tail
          else Inl empty_variant)"
| "variant_visit_impl Types v vis [] = Inl ill_formed"

definition visit ::
  "'t typelist \<Rightarrow> ('t, 'v) variant_storage \<Rightarrow> ('t \<Rightarrow> 'v \<Rightarrow> 'x + 'r) \<Rightarrow> 'x failure + 'r" where
  "visit Types v vis = variant_visit_impl Types v vis Types"

section \<open>Notions the properties are stated with\<close>

text \<open>
  A comparison that is a strict total order on the elements of a list: irreflexive,
  transitive, and any two different elements are ordered one way or the other. The
  predicates of the tests, \<^verbatim>\<open>smaller\<close> and \<^verbatim>\<open>less\<close>, are strict.
\<close>

definition strict_total_order_on :: "'t list \<Rightarrow> ('t \<Rightarrow> 't \<Rightarrow> bool) \<Rightarrow> bool" where
  "strict_total_order_on L Cmp =
     ((\<forall>x\<in>set L. \<not> Cmp x x)
      \<and> (\<forall>x\<in>set L. \<forall>y\<in>set L. \<forall>z\<in>set L. Cmp x y \<longrightarrow> Cmp y z \<longrightarrow> Cmp x z)
      \<and> (\<forall>x\<in>set L. \<forall>y\<in>set L. x \<noteq> y \<longrightarrow> Cmp x y \<or> Cmp y x))"

text \<open>
  The variant holds alternative \<open>A\<close> with value \<open>a\<close>: \<^verbatim>\<open>is<A>()\<close> is true and the object
  in the buffer is that \<open>A\<close>.
\<close>

definition holds :: "'t typelist \<Rightarrow> 't \<Rightarrow> 'v \<Rightarrow> ('t, 'v) variant_storage \<Rightarrow> bool" where
  "holds Types A a v = (is_T Types A v = Some True \<and> buffer v = Some (A, a))"

text \<open>The destructor calls among a list of events.\<close>

fun destructor_calls :: "('t, 'v) event list \<Rightarrow> 't list" where
  "destructor_calls [] = []"
| "destructor_calls (Destroyed T # es) = T # destructor_calls es"
| "destructor_calls (e # es) = destructor_calls es"

text \<open>
  The currently active alternative: the type the stored discriminator designates, if
  any. \<open>hit\<close> is the test \<^verbatim>\<open>get_discriminator() == Discriminator\<close> of one choice.
\<close>

definition active_alternative :: "'t typelist \<Rightarrow> ('t, 'v) variant_storage \<Rightarrow> 't option" where
  "active_alternative Types v =
     (if empty v then None else nth_element Types (unat (get_discriminator v) - 1))"

definition hit :: "'t typelist \<Rightarrow> ('t, 'v) variant_storage \<Rightarrow> 't \<Rightarrow> bool" where
  "hit Types v T = (Discriminator Types T = Some (unat (discriminator v)))"

text \<open>
  The states of a variant: the storage before a constructor body runs, what the
  constructors return, and what assignment and \<^verbatim>\<open>destroy\<close> make of such a state. The
  copy and move operations between variants are calls of the same assignments with the
  value \<^verbatim>\<open>visit\<close> finds in the source.
\<close>

inductive reachable ::
  "('t, 'v, 'x) members \<Rightarrow> 't typelist \<Rightarrow> ('t, 'v) variant_storage \<Rightarrow> bool"
  for M :: "('t, 'v, 'x) members" and Types :: "'t typelist" where
  storage: "reachable M Types storage_init"
| from_value: "choice_ctor M Types vc T value = Inr v \<Longrightarrow> reachable M Types v"
| default: "variant_default_ctor M Types = Inr v \<Longrightarrow> reachable M Types v"
| assigned: "reachable M Types v \<Longrightarrow> choice_assign M Types vc T value v = (outcome, v')
     \<Longrightarrow> reachable M Types v'"
| destroyed: "reachable M Types v \<Longrightarrow> reachable M Types (variant_destroy Types v)"

text \<open>
  The discriminator designates the object in the buffer: it is 0 when no object lives
  there, and otherwise the \<^verbatim>\<open>Discriminator\<close> of that object's type.
\<close>

definition discriminates :: "'t typelist \<Rightarrow> ('t, 'v) variant_storage \<Rightarrow> bool" where
  "discriminates Types v =
     (case buffer v of
        None \<Rightarrow> discriminator v = 0
      | Some (A, a) \<Rightarrow> Discriminator Types A = Some (unat (discriminator v)))"

text \<open>
  Members for the examples. \<open>test_members\<close> has the type \<^verbatim>\<open>noncopyable\<close> of the
  test, whose copy constructor and copy assignment throw \<^verbatim>\<open>copied_noncopyable\<close>; the
  members of \<open>nothrow_members\<close> never throw.
\<close>

definition test_members :: "(string, nat, string) members" where
  "test_members =
     \<lparr>default_ctor = (\<lambda>T. Inr 0),
      copy_ctor = (\<lambda>T value. if T = ''noncopyable'' then Inl ''copied_noncopyable'' else Inr value),
      move_ctor = (\<lambda>T value. Inr value),
      copy_assign = (\<lambda>T target value.
        if T = ''noncopyable'' then (Some ''copied_noncopyable'', target) else (None, value)),
      move_assign = (\<lambda>T target value. (None, value))\<rparr>"

definition nothrow_members :: "('t, nat, unit) members" where
  "nothrow_members =
     \<lparr>default_ctor = (\<lambda>T. Inr 0),
      copy_ctor = (\<lambda>T value. Inr value),
      move_ctor = (\<lambda>T value. Inr value),
      copy_assign = (\<lambda>T target value. (None, value)),
      move_assign = (\<lambda>T target value. (None, value))\<rparr>"

section \<open>Facts about the typelist algorithms\<close>

lemma push_back_impl_append: "push_back_impl L E = L @ [E]"
  by (induction L) (simp_all add: push_front_def)

lemma push_back_append: "push_back L E = L @ [E]"
  by (simp add: push_back_def push_back_impl_append)

lemma reverse_rev: "reverse L = rev L"
  by (induction L) (simp_all add: push_back_append)

lemma reverse_pack_rev: "reverse_pack L = rev L"
  by (induction L) (simp_all add: push_back_pack_def)

text \<open>
  C6. For every typelist \<open>L\<close> and element \<open>E\<close>: popping the front of
  \<open>push_front L E\<close> gives back \<open>L\<close>, its front is \<open>E\<close>, reversing twice gives back \<open>L\<close>,
  and \<open>push_back L E\<close> is one element longer than \<open>L\<close>. The header has no length
  metafunction; the length is the number of types in the pack.
\<close>

theorem typelist_algebra_laws:
  "pop_front (push_front L E) = Some L
   \<and> front (push_front L E) = Some E
   \<and> reverse (reverse L) = L
   \<and> length (push_back L E) = length L + 1"
  by (simp add: push_front_def reverse_rev push_back_append)

subsection \<open>largest_type\<close>

lemma largest_type_first_max:
  assumes "L \<noteq> []" and "\<forall>T\<in>set L. sizeof char_t \<le> sizeof T"
  shows "\<exists>i<length L. largest_type sizeof char_t L = L ! i
           \<and> (\<forall>j<length L. sizeof (L ! j) \<le> sizeof (L ! i))
           \<and> (\<forall>j<i. sizeof (L ! j) < sizeof (L ! i))"
  using assms
proof (induction L)
  case Nil
  then show ?case by simp
next
  case (Cons h t)
  show ?case
  proof (cases "t = []")
    case True
    with Cons.prems show ?thesis by simp
  next
    case False
    with Cons obtain i where i: "i < length t" "largest_type sizeof char_t t = t ! i"
      "\<forall>j<length t. sizeof (t ! j) \<le> sizeof (t ! i)" "\<forall>j<i. sizeof (t ! j) < sizeof (t ! i)"
      by auto
    show ?thesis
    proof (cases "sizeof h \<ge> sizeof (t ! i)")
      case True
      have "\<forall>j<length (h # t). sizeof ((h # t) ! j) \<le> sizeof h"
      proof (intro allI impI)
        fix j assume "j < length (h # t)"
        then show "sizeof ((h # t) ! j) \<le> sizeof h"
          using True i(3) by (cases j) (auto intro: order_trans)
      qed
      with True i(2) show ?thesis by (intro exI [of _ 0]) simp
    next
      case notge: False
      have a: "\<forall>j<length (h # t). sizeof ((h # t) ! j) \<le> sizeof ((h # t) ! Suc i)"
      proof (intro allI impI)
        fix j assume "j < length (h # t)"
        then show "sizeof ((h # t) ! j) \<le> sizeof ((h # t) ! Suc i)"
          using notge i(3) by (cases j) auto
      qed
      have b: "\<forall>j<Suc i. sizeof ((h # t) ! j) < sizeof ((h # t) ! Suc i)"
      proof (intro allI impI)
        fix j assume "j < Suc i"
        then show "sizeof ((h # t) ! j) < sizeof ((h # t) ! Suc i)"
          using notge i(4) by (cases j) auto
      qed
      from notge i(1,2) a b show ?thesis by (intro exI [of _ "Suc i"]) simp
    qed
  qed
qed

text \<open>
  C7. For every non-empty typelist \<open>L\<close>, \<open>largest_type\<close> returns an element of \<open>L\<close> of
  maximum \<open>sizeof\<close>, and every element to its left is strictly smaller: it is the first
  maximal element in left-to-right order. In C++ \<^verbatim>\<open>sizeof(char)\<close> is 1 and every
  \<^verbatim>\<open>sizeof\<close> is at least 1; these two facts about the parameters are the hypotheses.
\<close>

theorem largest_type_first_maximal:
  assumes "L \<noteq> []" and "sizeof char_t = 1" and "\<forall>T\<in>set L. 1 \<le> sizeof T"
  shows "\<exists>i<length L. largest_type sizeof char_t L = L ! i
           \<and> (\<forall>j<length L. sizeof (L ! j) \<le> sizeof (L ! i))
           \<and> (\<forall>j<i. sizeof (L ! j) < sizeof (L ! i))"
  using assms by (intro largest_type_first_max) simp_all

text \<open>
  The list of the header's own test, \<^verbatim>\<open>typelist<double, char, int*>\<close>, with the sizes of
  an LP64 platform: \<^verbatim>\<open>double\<close> and \<^verbatim>\<open>int*\<close> tie at 8 and the first one is returned.
\<close>

theorem largest_type_first_maximal_witness:
  "[''double'', ''char'', ''int*''] \<noteq> []
   \<and> (\<lambda>T. if T = ''char'' then 1 else 8 :: nat) ''char'' = 1
   \<and> list_all (\<lambda>T. 1 \<le> (\<lambda>T. if T = ''char'' then 1 else 8 :: nat) T)
        [''double'', ''char'', ''int*'']
   \<and> largest_type (\<lambda>T. if T = ''char'' then 1 else 8 :: nat) ''char''
        [''double'', ''char'', ''int*''] = ''double''
   \<and> (\<exists>i<length [''double'', ''char'', ''int*''].
         largest_type (\<lambda>T. if T = ''char'' then 1 else 8 :: nat) ''char''
           [''double'', ''char'', ''int*''] = [''double'', ''char'', ''int*''] ! i
         \<and> (\<forall>j<length [''double'', ''char'', ''int*''].
               (\<lambda>T. if T = ''char'' then 1 else 8 :: nat) ([''double'', ''char'', ''int*''] ! j)
               \<le> (\<lambda>T. if T = ''char'' then 1 else 8 :: nat) ([''double'', ''char'', ''int*''] ! i))
         \<and> (\<forall>j<i. (\<lambda>T. if T = ''char'' then 1 else 8 :: nat) ([''double'', ''char'', ''int*''] ! j)
               < (\<lambda>T. if T = ''char'' then 1 else 8 :: nat) ([''double'', ''char'', ''int*''] ! i)))"
proof -
  let ?sz = "\<lambda>T. if T = ''char'' then 1 else 8 :: nat"
  let ?L = "[''double'', ''char'', ''int*'']"
  have h1: "?L \<noteq> []" by simp
  have h2: "?sz ''char'' = 1" by simp
  have h3: "\<forall>T\<in>set ?L. 1 \<le> ?sz T" by simp
  have v: "largest_type ?sz ''char'' ?L = ''double''" by simp
  from largest_type_first_maximal [of ?L ?sz "''char''", OF h1 h2 h3] h1 h3 v
  show ?thesis by simp
qed

subsection \<open>insertion_sort\<close>

lemma mset_insert_sorted: "mset (insert_sorted Cmp L E) = add_mset E (mset L)"
  by (induction L) (simp_all add: push_front_def)

lemma mset_insertion_sort: "mset (insertion_sort Cmp L) = mset L"
  by (induction L) (simp_all add: mset_insert_sorted)

lemma set_insertion_sort: "set (insertion_sort Cmp L) = set L"
  using mset_insertion_sort [of Cmp L] by (metis set_mset_mset)

lemma insert_sorted_cases:
  "insert_sorted Cmp L E = E # L
   \<or> (\<exists>h t. L = h # t \<and> \<not> Cmp E h \<and> (\<exists>r. insert_sorted Cmp L E = h # r))"
  by (cases L) (simp_all add: push_front_def)

lemma successively_insert_sorted:
  assumes "\<forall>x\<in>set L. Cmp E x \<longrightarrow> \<not> Cmp x E"
    and "successively (\<lambda>earlier later. \<not> Cmp later earlier) L"
  shows "successively (\<lambda>earlier later. \<not> Cmp later earlier) (insert_sorted Cmp L E)"
  using assms
proof (induction L)
  case Nil
  then show ?case by (simp add: push_front_def)
next
  case (Cons h t)
  show ?case
  proof (cases "Cmp E h")
    case True
    with Cons.prems show ?thesis by (simp add: push_front_def)
  next
    case False
    from Cons.prems have t: "successively (\<lambda>earlier later. \<not> Cmp later earlier) t"
      by (cases t) simp_all
    from Cons.prems have "\<forall>x\<in>set t. Cmp E x \<longrightarrow> \<not> Cmp x E" by simp
    with Cons.IH t
    have IH: "successively (\<lambda>earlier later. \<not> Cmp later earlier) (insert_sorted Cmp t E)"
      by blast
    from insert_sorted_cases [of Cmp t E] show ?thesis
    proof
      assume "insert_sorted Cmp t E = E # t"
      with False IH show ?thesis by (simp add: push_front_def)
    next
      assume "\<exists>h' t'. t = h' # t' \<and> \<not> Cmp E h' \<and> (\<exists>r. insert_sorted Cmp t E = h' # r)"
      then obtain h' t' r where *: "t = h' # t'" "insert_sorted Cmp t E = h' # r" by blast
      with Cons.prems(2) have "\<not> Cmp h' h" by simp
      with * False IH show ?thesis by (simp add: push_front_def)
    qed
  qed
qed

lemma successively_insertion_sort:
  assumes "\<forall>x\<in>set L. \<forall>y\<in>set L. Cmp x y \<longrightarrow> \<not> Cmp y x"
  shows "successively (\<lambda>earlier later. \<not> Cmp later earlier) (insertion_sort Cmp L)"
  using assms
proof (induction L)
  case Nil
  then show ?case by simp
next
  case (Cons h t)
  then have "successively (\<lambda>earlier later. \<not> Cmp later earlier) (insertion_sort Cmp t)"
    by simp
  moreover from Cons.prems have "\<forall>x\<in>set (insertion_sort Cmp t). Cmp h x \<longrightarrow> \<not> Cmp x h"
    by (simp add: set_insertion_sort)
  ultimately show ?case by (simp add: successively_insert_sorted)
qed

text \<open>
  C5. For every typelist \<open>L\<close> and every comparison \<open>Cmp\<close> that is a strict total order
  on the elements of \<open>L\<close>, \<open>insertion_sort Cmp L\<close> has the same elements as \<open>L\<close> with
  the same multiplicities, and every adjacent pair (earlier, later) of the result
  satisfies \<open>\<not> Cmp later earlier\<close>.
\<close>

theorem insertion_sort_correct:
  assumes "strict_total_order_on L Cmp"
  shows "mset (insertion_sort Cmp L) = mset L
    \<and> (\<forall>i. Suc i < length (insertion_sort Cmp L) \<longrightarrow>
          \<not> Cmp (insertion_sort Cmp L ! Suc i) (insertion_sort Cmp L ! i))"
proof -
  from assms have "\<forall>x\<in>set L. \<forall>y\<in>set L. Cmp x y \<longrightarrow> \<not> Cmp y x"
    unfolding strict_total_order_on_def by blast
  then have "successively (\<lambda>earlier later. \<not> Cmp later earlier) (insertion_sort Cmp L)"
    by (rule successively_insertion_sort)
  then show ?thesis
    by (simp add: mset_insertion_sort successively_conv_nth)
qed

theorem insertion_sort_correct_witness:
  "strict_total_order_on [2, 3, 0, 1, 2 :: nat] (<)
   \<and> insertion_sort (<) [2, 3, 0, 1, 2 :: nat] = [0, 1, 2, 2, 3]
   \<and> mset (insertion_sort (<) [2, 3, 0, 1, 2 :: nat]) = mset [2, 3, 0, 1, 2]
   \<and> \<not> (insertion_sort (<) [2, 3, 0, 1, 2 :: nat] ! Suc 2)
          < (insertion_sort (<) [2, 3, 0, 1, 2 :: nat] ! 2)"
proof -
  have h: "strict_total_order_on [2, 3, 0, 1, 2 :: nat] (<)"
    by (simp add: strict_total_order_on_def)
  have e: "insertion_sort (<) [2, 3, 0, 1, 2 :: nat] = [0, 1, 2, 2, 3]"
    by (simp add: push_front_def)
  from insertion_sort_correct [OF h] h e show ?thesis by simp
qed

section \<open>Facts about tuples\<close>

lemma arity_slots: "arity t = length (slots t)"
  by (induction t) simp_all

lemma tuple_get_slots: "tuple_get i t = (if i < arity t then Some (slots t ! i) else None)"
  by (induction i t rule: tuple_get.induct) simp_all

lemma those_map_Some: "those (map Some xs) = Some xs"
  by (induction xs) simp_all

lemma those_tuple_get:
  assumes "\<forall>I\<in>set Indices. I < arity t"
  shows "those (map (\<lambda>I. tuple_get I t) Indices) = Some (map (\<lambda>I. slots t ! I) Indices)"
proof -
  from assms have "map (\<lambda>I. tuple_get I t) Indices = map Some (map (\<lambda>I. slots t ! I) Indices)"
    by (simp add: tuple_get_slots)
  then show ?thesis by (simp only: those_map_Some)
qed

lemma tuple_ctor_result:
  "\<exists>T. tuple_ctor args log = (T, log @ args) \<and> slots T = args"
proof (induction args arbitrary: log)
  case Nil
  then show ?case by simp
next
  case (Cons a args)
  from Cons [of "log @ [a]"] obtain T where
    "tuple_ctor args (log @ [a]) = (T, (log @ [a]) @ args)" "slots T = args" by blast
  then show ?case by (simp add: tuple_elt_ctor_def)
qed

lemma slots_inject: "slots a = slots b \<Longrightarrow> a = b"
proof (induction a arbitrary: b)
  case Tuple0
  then show ?case by (cases b) simp_all
next
  case (Tuple h t)
  then show ?case by (cases b) simp_all
qed

lemma map_nth_rev_upt: "map (\<lambda>I. xs ! I) (rev [0..<length xs]) = rev xs"
  by (simp add: rev_map [symmetric] map_nth)

lemma reverse_tuple_result:
  "\<exists>r. reverse_tuple t log = Some (r, log @ rev (slots t)) \<and> slots r = rev (slots t)"
proof -
  have "those (map (\<lambda>I. tuple_get I t) (rev [0..<arity t])) = Some (rev (slots t))"
    by (simp add: those_tuple_get arity_slots map_nth_rev_upt)
  moreover obtain T where "tuple_ctor (rev (slots t)) log = (T, log @ rev (slots t))" "slots T = rev (slots t)"
    using tuple_ctor_result by blast
  ultimately show ?thesis
    by (simp add: reverse_tuple_def select_tuple_def index_sequence_for_def reverse_pack_rev make_tuple_def)
qed

text \<open>
  C9. Reversing a tuple gives the slots in reverse order and calls an element constructor
  once for each slot of the source, in the order of the result, and nothing else: the log
  grows by exactly the reversed slots, so by as many entries as the tuple has slots. The
  index list is computed at compile time, \<^verbatim>\<open>get\<close> returns references, and since
  C++17 returning the new tuple by value constructs it in place. For a tuple of five
  elements that is five constructor calls.
\<close>

theorem reverse_tuple_one_copy_per_element:
  "(\<exists>r. reverse_tuple t log = Some (r, log @ rev (slots t))
        \<and> slots r = rev (slots t)
        \<and> length (log @ rev (slots t)) = length log + arity t)
   \<and> reverse_tuple (Tuple a (Tuple b (Tuple c (Tuple d (Tuple e Tuple0))))) []
       = Some (Tuple e (Tuple d (Tuple c (Tuple b (Tuple a Tuple0)))), [e, d, c, b, a])"
proof
  show "\<exists>r. reverse_tuple t log = Some (r, log @ rev (slots t))
        \<and> slots r = rev (slots t)
        \<and> length (log @ rev (slots t)) = length log + arity t"
    using reverse_tuple_result [of t log] by (auto simp: arity_slots)
next
  let ?t = "Tuple a (Tuple b (Tuple c (Tuple d (Tuple e Tuple0))))"
  obtain r where r: "reverse_tuple ?t [] = Some (r, [] @ rev (slots ?t))" "slots r = rev (slots ?t)"
    using reverse_tuple_result [of ?t "[]"] by blast
  from r(2) have "slots r = slots (Tuple e (Tuple d (Tuple c (Tuple b (Tuple a Tuple0)))))" by simp
  then have "r = Tuple e (Tuple d (Tuple c (Tuple b (Tuple a Tuple0))))" by (rule slots_inject)
  with r(1) show "reverse_tuple ?t [] = Some (Tuple e (Tuple d (Tuple c (Tuple b (Tuple a Tuple0)))), [e, d, c, b, a])"
    by simp
qed

lemma print_tuple_rest:
  "print_tuple put os t False = os @ concat (map (\<lambda>x. '', '' @ put x) (slots t)) @ '')''"
  by (induction t arbitrary: os) simp_all

text \<open>
  C10. Inserting an empty tuple into a stream writes the single character \<open>(\<close> and no
  closing parenthesis. A tuple with at least one slot is written as an opening
  parenthesis, its slots separated by a comma and a space, and the closing parenthesis,
  which the empty tail writes.
\<close>

theorem print_empty_tuple:
  "shift_out put os Tuple0 = os @ ''(''
   \<and> shift_out put os (Tuple head tail)
       = os @ ''('' @ put head @ concat (map (\<lambda>x. '', '' @ put x) (slots tail)) @ '')''"
  by (simp add: shift_out_def print_tuple_rest)

lemma tuple_eq_arity: "arity a \<noteq> arity b \<Longrightarrow> tuple_eq eq a b = None"
  by (induction eq a b rule: tuple_eq.induct) (auto split: option.splits)

lemma tuple_eq_structural:
  "arity a = arity b \<Longrightarrow>
   (tuple_eq eq a b = Some True) =
   (\<forall>i<arity a. \<exists>x y. tuple_get i a = Some x \<and> tuple_get i b = Some y \<and> eq x y = Some True)"
proof (induction eq a b rule: tuple_eq.induct)
  case (1 eq)
  then show ?case by simp
next
  case (2 eq head1 tail1 head2 tail2)
  from 2 show ?case
    by (cases "eq head1 head2"; cases "tuple_eq eq tail1 tail2") (auto simp: All_less_Suc2)
next
  case (3 eq head2 tail2)
  then show ?case by simp
next
  case (4 eq head1 tail1)
  then show ?case by simp
qed

lemma tuple_eq_defined:
  "arity a = arity b \<Longrightarrow>
   \<forall>i<arity a. \<exists>x y c. tuple_get i a = Some x \<and> tuple_get i b = Some y \<and> eq x y = Some c \<Longrightarrow>
   tuple_eq eq a b \<noteq> None"
proof (induction eq a b rule: tuple_eq.induct)
  case (2 eq head1 tail1 head2 tail2)
  from 2(3) have "\<exists>c. eq head1 head2 = Some c" by (auto simp: All_less_Suc2)
  moreover from 2 have "tuple_eq eq tail1 tail2 \<noteq> None" by (auto simp: All_less_Suc2)
  ultimately show ?case by auto
qed simp_all

lemma double_3_14_eq: "double_eq double_3_14 double_3_14"
  by (simp add: double_eq_def double_is_nan_def double_3_14_def)

lemma floor_log2_42: "floor_log2 42 = 5"
  by (simp add: floor_log2.simps)

lemma double_of_int_42: "double_of_int 42 = 0x4045000000000000"
  by (simp add: double_of_int_def floor_log2_42)

lemma int_slot_equals_double_slot:
  "tuple_eq val_eq (fst (make_tuple [IntV 42] [])) (fst (make_tuple [DoubleV 0x4045000000000000] []))
   = Some True"
  by (simp add: make_tuple_def tuple_elt_ctor_def double_of_int_42 double_eq_def double_is_nan_def)

lemma test_tuple_eq: "test_tuple p = Tuple (IntV 42) (Tuple (DoubleV double_3_14) (Tuple (CStrV p) Tuple0))"
  by (simp add: test_tuple_def make_tuple_def tuple_elt_ctor_def)

lemma test_tuple_self_eq: "tuple_eq val_eq (test_tuple p) (test_tuple p) = Some True"
  by (simp add: test_tuple_eq double_3_14_eq)

lemma test_tuple_reverse_twice:
  "\<exists>r log rr log'. reverse_tuple (test_tuple p) [] = Some (r, log)
      \<and> reverse_tuple r log = Some (rr, log') \<and> rr = test_tuple p"
proof -
  obtain r where r: "reverse_tuple (test_tuple p) [] = Some (r, [] @ rev (slots (test_tuple p)))"
      "slots r = rev (slots (test_tuple p))"
    using reverse_tuple_result by blast
  obtain rr where rr: "reverse_tuple r (rev (slots (test_tuple p))) = Some (rr, rev (slots (test_tuple p)) @ rev (slots r))"
      "slots rr = rev (slots r)"
    using reverse_tuple_result by blast
  from r(2) rr(2) have "slots rr = slots (test_tuple p)" by simp
  then have "rr = test_tuple p" by (rule slots_inject)
  with r(1) rr(1) show ?thesis by auto
qed

text \<open>
  C8. Tuple equality is structural: two empty tuples are equal; two tuples of the same
  arity are equal exactly when every pair of corresponding slots is equal, and the
  comparison is defined when every pair of slots can be compared. For the tuple built
  from \<^verbatim>\<open>(42, 3.14, "downdemo")\<close>: slot 0 is 42, slot 1 is 3.14, slot 2 is a pointer
  to characters that \<^verbatim>\<open>strcmp\<close> finds equal to \<^verbatim>\<open>"downdemo"\<close>, the tuple equals itself,
  and reversing it twice gives a tuple equal to it.
\<close>

theorem tuple_equality_structural:
  "tuple_eq eq Tuple0 Tuple0 = Some True
   \<and> (arity a = arity b \<longrightarrow>
        (tuple_eq eq a b = Some True)
        = (\<forall>i<arity a. \<exists>x y. tuple_get i a = Some x \<and> tuple_get i b = Some y
                              \<and> eq x y = Some True))
   \<and> (arity a = arity b
        \<and> (\<forall>i<arity a. \<exists>x y c. tuple_get i a = Some x \<and> tuple_get i b = Some y
                                \<and> eq x y = Some c)
        \<longrightarrow> tuple_eq eq a b \<noteq> None)
   \<and> tuple_get 0 (test_tuple p) = Some (IntV 42)
   \<and> val_eq (IntV 42) (IntV 42) = Some True
   \<and> tuple_get 1 (test_tuple p) = Some (DoubleV double_3_14)
   \<and> val_eq (DoubleV double_3_14) (DoubleV double_3_14) = Some True
   \<and> tuple_get 2 (test_tuple p) = Some (CStrV p)
   \<and> (literal p = ''downdemo'' \<longrightarrow> strcmp (literal p) ''downdemo'' = 0)
   \<and> tuple_eq val_eq (test_tuple p) (test_tuple p) = Some True
   \<and> (\<exists>r log rr log'. reverse_tuple (test_tuple p) [] = Some (r, log)
         \<and> reverse_tuple r log = Some (rr, log')
         \<and> tuple_eq val_eq rr (test_tuple p) = Some True)"
proof -
  have s: "arity a = arity b \<longrightarrow>
        (tuple_eq eq a b = Some True)
        = (\<forall>i<arity a. \<exists>x y. tuple_get i a = Some x \<and> tuple_get i b = Some y
                              \<and> eq x y = Some True)"
    using tuple_eq_structural [of a b eq] by blast
  have d: "arity a = arity b
        \<and> (\<forall>i<arity a. \<exists>x y c. tuple_get i a = Some x \<and> tuple_get i b = Some y
                                \<and> eq x y = Some c)
        \<longrightarrow> tuple_eq eq a b \<noteq> None"
    using tuple_eq_defined [of a b eq] by blast
  have g: "tuple_get 0 (test_tuple p) = Some (IntV 42)"
      "tuple_get 1 (test_tuple p) = Some (DoubleV double_3_14)"
      "tuple_get 2 (test_tuple p) = Some (CStrV p)"
    by (simp_all add: test_tuple_eq numeral_2_eq_2)
  have c: "literal p = ''downdemo'' \<longrightarrow> strcmp (literal p) ''downdemo'' = 0" by simp
  have r: "\<exists>r log rr log'. reverse_tuple (test_tuple p) [] = Some (r, log)
         \<and> reverse_tuple r log = Some (rr, log')
         \<and> tuple_eq val_eq rr (test_tuple p) = Some True"
    using test_tuple_reverse_twice [of p] test_tuple_self_eq [of p] by metis
  from s d g c r show ?thesis
    by (simp only: tuple_eq.simps val_eq.simps double_3_14_eq test_tuple_self_eq simp_thms)
qed

theorem tuple_equality_structural_witness:
  "arity (Tuple (IntV 1) (Tuple (IntV 2) Tuple0)) = arity (Tuple (IntV 1) (Tuple (IntV 3) Tuple0))
   \<and> tuple_eq val_eq (Tuple (IntV 1) (Tuple (IntV 2) Tuple0)) (Tuple (IntV 1) (Tuple (IntV 3) Tuple0))
       = Some False
   \<and> (\<lambda>a. if a = 4096 then ''downdemo'' else []) (4096 :: nat) = ''downdemo''
   \<and> strcmp ((\<lambda>a. if a = 4096 then ''downdemo'' else []) (4096 :: nat)) ''downdemo'' = 0
   \<and> tuple_eq val_eq (test_tuple 4096) (test_tuple 4096) = Some True"
  using tuple_equality_structural [of val_eq "Tuple (IntV 1) (Tuple (IntV 2) Tuple0)"
      "Tuple (IntV 1) (Tuple (IntV 3) Tuple0)" 4096 "\<lambda>a. if a = 4096 then ''downdemo'' else []"]
  by simp

section \<open>Facts about the variant\<close>

lemma find_index_of_lower: "find_index_of L T N = Some k \<Longrightarrow> N \<le> k"
  by (induction L T N rule: find_index_of.induct) (auto split: if_splits)

lemma find_index_of_nth:
  "find_index_of L T N = Some k \<Longrightarrow> k - N < length L \<and> L ! (k - N) = T"
proof (induction L T N rule: find_index_of.induct)
  case (1 Head Tail T N)
  show ?case
  proof (cases "Head = T")
    case True
    with 1 show ?thesis by simp
  next
    case False
    with 1 have f: "find_index_of Tail T (N + 1) = Some k" by simp
    with 1 False have "k - (N + 1) < length Tail \<and> Tail ! (k - (N + 1)) = T" by simp
    moreover from f have "N + 1 \<le> k" by (rule find_index_of_lower)
    then have "k - N = Suc (k - (N + 1))" by simp
    ultimately show ?thesis by simp
  qed
next
  case (2 T N)
  then show ?case by simp
qed

lemma find_index_of_member: "T \<in> set L \<Longrightarrow> \<exists>k. find_index_of L T N = Some k"
  by (induction L T N rule: find_index_of.induct) auto

lemma find_index_of_distinct:
  "distinct L \<Longrightarrow> i < length L \<Longrightarrow> find_index_of L (L ! i) N = Some (N + i)"
proof (induction L arbitrary: i N)
  case Nil
  then show ?case by simp
next
  case (Cons h t)
  show ?case
  proof (cases i)
    case 0
    then show ?thesis by simp
  next
    case (Suc j)
    with Cons.prems have "t ! j \<in> set t" "h \<notin> set t" by simp_all
    then have "h \<noteq> t ! j" by blast
    with Cons Suc show ?thesis by simp
  qed
qed

lemma Discriminator_positive: "Discriminator Types T = Some D \<Longrightarrow> 1 \<le> D"
  by (auto simp: Discriminator_def)

lemma Discriminator_member: "T \<in> set Types \<Longrightarrow> \<exists>D. Discriminator Types T = Some D"
  using find_index_of_member [of T Types 0] by (auto simp: Discriminator_def)

lemma Discriminator_nth:
  "Discriminator Types T = Some D \<Longrightarrow> D - 1 < length Types \<and> Types ! (D - 1) = T"
  using find_index_of_nth [of Types T 0] by (auto simp: Discriminator_def)

lemma Discriminator_inject:
  "Discriminator Types A = Some D \<Longrightarrow> Discriminator Types T = Some D \<Longrightarrow> A = T"
  using Discriminator_nth by metis

lemma Discriminator_distinct:
  "distinct Types \<Longrightarrow> i < length Types \<Longrightarrow> Discriminator Types (Types ! i) = Some (i + 1)"
  by (simp add: Discriminator_def find_index_of_distinct)

subsection \<open>The fold of destroy\<close>

lemma hit_update [simp]: "hit Types (v\<lparr>buffer := b, trace := t\<rparr>) = hit Types v"
  by (simp add: hit_def fun_eq_iff)

lemma fold_destroy_discriminator:
  "discriminator (foldl (\<lambda>s T. snd (choice_destroy Types T s)) v Ts) = discriminator v"
  by (induction Ts arbitrary: v)
     (simp_all add: choice_destroy_def destructor_call_def get_discriminator_def)

lemma fold_destroy_trace:
  "trace (foldl (\<lambda>s T. snd (choice_destroy Types T s)) v Ts)
   = trace v @ map Destroyed (filter (hit Types v) Ts)"
  by (induction Ts arbitrary: v)
     (simp_all add: choice_destroy_def destructor_call_def get_discriminator_def hit_def)

lemma fold_destroy_buffer:
  "buffer (foldl (\<lambda>s T. snd (choice_destroy Types T s)) v Ts)
   = (if filter (hit Types v) Ts = [] then buffer v else None)"
  by (induction Ts arbitrary: v)
     (simp_all add: choice_destroy_def destructor_call_def get_discriminator_def hit_def)

lemma variant_destroy_discriminator: "discriminator (variant_destroy Types v) = 0"
  by (simp add: variant_destroy_def set_discriminator_def)

lemma variant_destroy_trace:
  "trace (variant_destroy Types v)
   = trace v @ map Destroyed (filter (hit Types v) Types) @ [Discriminator_set 0]"
  by (simp add: variant_destroy_def set_discriminator_def fold_destroy_trace)

lemma variant_destroy_buffer:
  "buffer (variant_destroy Types v) = (if filter (hit Types v) Types = [] then buffer v else None)"
  by (simp add: variant_destroy_def set_discriminator_def fold_destroy_buffer)

lemma no_hit_when_empty: "discriminator v = 0 \<Longrightarrow> filter (hit Types v) Ts = []"
  by (auto simp: hit_def filter_empty_conv dest: Discriminator_positive)

lemma nth_element_nth: "nth_element L N = (if N < length L then Some (L ! N) else None)"
proof (induction N arbitrary: L)
  case 0
  then show ?case by (cases L) simp_all
next
  case (Suc N)
  then show ?case by (cases L) simp_all
qed

lemma filter_eq_distinct: "distinct xs \<Longrightarrow> x \<in> set xs \<Longrightarrow> filter (\<lambda>y. y = x) xs = [x]"
  by (induction xs) (auto simp: filter_empty_conv)

lemma hit_active:
  assumes "distinct Types"
  shows "filter (hit Types v) Types
         = (case active_alternative Types v of None \<Rightarrow> [] | Some A \<Rightarrow> [A])"
proof (cases "discriminator v = 0 \<or> length Types < unat (discriminator v)")
  case True
  have "filter (hit Types v) Types = []"
  proof (rule ccontr)
    assume "filter (hit Types v) Types \<noteq> []"
    then obtain T where "T \<in> set Types" "hit Types v T" by (auto simp: filter_empty_conv)
    then have D: "Discriminator Types T = Some (unat (discriminator v))" by (simp add: hit_def)
    from Discriminator_positive [OF D] Discriminator_nth [OF D] True show False
      by (auto simp: unat_eq_0)
  qed
  moreover from True have "active_alternative Types v = None"
    by (auto simp: active_alternative_def empty_def get_discriminator_def nth_element_nth)
  ultimately show ?thesis by simp
next
  case False
  define i where "i = unat (discriminator v) - 1"
  from False have "unat (discriminator v) \<noteq> 0" by (simp add: unat_eq_0)
  with False have i: "i < length Types" "unat (discriminator v) = i + 1"
    unfolding i_def by arith+
  have "\<And>T. T \<in> set Types \<Longrightarrow> hit Types v T = (T = Types ! i)"
    using Discriminator_distinct [OF assms i(1)] i(2)
    by (auto simp: hit_def dest: Discriminator_inject)
  then have "filter (hit Types v) Types = filter (\<lambda>T. T = Types ! i) Types"
    by (intro filter_cong) auto
  also have "\<dots> = [Types ! i]"
    using assms i(1) by (simp add: filter_eq_distinct)
  finally have f: "filter (hit Types v) Types = [Types ! i]" .
  from i(1) have "nth_element Types (unat (discriminator v) - 1) = Some (Types ! i)"
    unfolding i_def by (simp add: nth_element_nth)
  with False have "active_alternative Types v = Some (Types ! i)"
    by (simp add: active_alternative_def empty_def get_discriminator_def)
  with f show ?thesis by simp
qed

lemma fold_destroy_empty:
  "discriminator v = 0 \<Longrightarrow> foldl (\<lambda>s T. snd (choice_destroy Types T s)) v Ts = v"
  by (induction Ts) (auto simp: choice_destroy_def get_discriminator_def dest: Discriminator_positive)

lemma variant_destroy_empty:
  "discriminator v = 0 \<Longrightarrow> variant_destroy Types v = set_discriminator v 0"
  by (simp add: variant_destroy_def fold_destroy_empty)

lemma choice_assign_in_place:
  assumes "Discriminator Types T = Some D" and "unat (get_discriminator v) = D"
    and "buffer v = Some (T, target)" and "assign M vc T target value = (exn, target')"
  shows "choice_assign M Types vc T value v
         = (map_option thrown exn,
            v\<lparr>buffer := Some (T, target'), trace := trace v @ [Assigned T value]\<rparr>)"
  using assms by (simp add: choice_assign_def)

lemma choice_assign_other:
  assumes "Discriminator Types T = Some D" and "unat (get_discriminator v) \<noteq> D"
    and "construct M vc T value = Inr obj"
  shows "choice_assign M Types vc T value v
         = (None, set_discriminator (placement_new (variant_destroy Types v) T obj) (of_nat D))"
  using assms by (simp add: choice_assign_def)

lemma choice_assign_throws:
  assumes "Discriminator Types T = Some D" and "unat (get_discriminator v) \<noteq> D"
    and "construct M vc T value = Inl x"
  shows "choice_assign M Types vc T value v = (Some (thrown x), variant_destroy Types v)"
  using assms by (simp add: choice_assign_def)

lemma is_T_empty:
  "T \<in> set Types \<Longrightarrow> discriminator v = 0 \<Longrightarrow> is_T Types T v = Some False"
proof -
  assume "T \<in> set Types" and d: "discriminator v = 0"
  then obtain D where D: "Discriminator Types T = Some D"
    using Discriminator_member by metis
  from Discriminator_positive [OF D] have "D \<noteq> 0" by simp
  with D d show ?thesis by (simp add: is_T_def get_discriminator_def)
qed

lemma unat_of_nat_byte: "D \<le> 255 \<Longrightarrow> unat (of_nat D :: 8 word) = D"
  by (simp add: unat_of_nat take_bit_nat_eq_self)

lemmas variant_eval =
  choice_assign_def choice_ctor_def variant_default_ctor_def Discriminator_def
  variant_destroy_def variant_dtor_def choice_destroy_def destructor_call_def placement_new_def
  set_discriminator_def get_discriminator_def storage_init_def construct_def assign_def
  is_T_def empty_def holds_def get_def visit_def active_alternative_def test_members_def

text \<open>
  C1. A variant holds alternative \<open>A\<close>; a value of a different alternative \<open>T\<close> is
  assigned and the copy or move construction of the \<open>T\<close> in the buffer throws \<open>x\<close>.
  Then \<open>x\<close> leaves the assignment, and afterwards the variant is empty: the
  discriminator is 0, \<^verbatim>\<open>is<A>()\<close> and \<^verbatim>\<open>is<T>()\<close> are false, no object lives in the
  buffer. The destructor that runs on this state only sets the discriminator to 0 again:
  it calls the destructor of no alternative.
\<close>

theorem assignment_exception_leaves_empty:
  assumes "holds Types A a v" and "T \<in> set Types" and "T \<noteq> A"
    and "construct M vc T value = Inl x"
  shows "\<exists>v'. choice_assign M Types vc T value v = (Some (thrown x), v')
           \<and> get_discriminator v' = 0
           \<and> empty v'
           \<and> is_T Types A v' = Some False
           \<and> is_T Types T v' = Some False
           \<and> buffer v' = None
           \<and> trace (variant_dtor Types v') = trace v' @ [Discriminator_set 0]
           \<and> destructor_calls (drop (length (trace v')) (trace (variant_dtor Types v'))) = []"
proof -
  from assms(1) have DA: "Discriminator Types A = Some (unat (discriminator v))"
    by (auto simp: holds_def is_T_def get_discriminator_def split: option.splits)
  from assms(2) obtain D where D: "Discriminator Types T = Some D"
    using Discriminator_member by metis
  from DA D assms(3) have neq: "unat (get_discriminator v) \<noteq> D"
    by (auto simp: get_discriminator_def dest: Discriminator_inject)
  let ?v' = "variant_destroy Types v"
  have r: "choice_assign M Types vc T value v = (Some (thrown x), ?v')"
    using D neq assms(4) by (rule choice_assign_throws)
  have d0: "discriminator ?v' = 0" by (rule variant_destroy_discriminator)
  from DA have A: "A \<in> set Types" using Discriminator_nth nth_mem by metis
  from DA have "hit Types v A" by (simp add: hit_def)
  with A have "filter (hit Types v) Types \<noteq> []" by (auto simp: filter_empty_conv)
  then have b: "buffer ?v' = None" by (simp add: variant_destroy_buffer)
  have t: "trace (variant_dtor Types ?v') = trace ?v' @ [Discriminator_set 0]"
    using d0 by (simp add: variant_dtor_def variant_destroy_empty set_discriminator_def)
  from r d0 b t A assms(2) show ?thesis
    by (simp add: get_discriminator_def empty_def is_T_empty)
qed

theorem assignment_exception_leaves_empty_witness:
  "holds [''int'', ''noncopyable''] ''int'' 42
     \<lparr>buffer = Some (''int'', 42 :: nat), discriminator = 1, trace = []\<rparr>
   \<and> ''noncopyable'' \<in> set [''int'', ''noncopyable'']
   \<and> construct test_members lvalue ''noncopyable'' 0 = Inl ''copied_noncopyable''
   \<and> choice_assign test_members [''int'', ''noncopyable''] lvalue ''noncopyable'' 0
        \<lparr>buffer = Some (''int'', 42), discriminator = 1, trace = []\<rparr>
       = (Some (thrown ''copied_noncopyable''),
          \<lparr>buffer = None, discriminator = 0, trace = [Destroyed ''int'', Discriminator_set 0]\<rparr>)
   \<and> is_T [''int'', ''noncopyable''] ''int''
        \<lparr>buffer = None :: (string \<times> nat) option, discriminator = 0,
         trace = [Destroyed ''int'', Discriminator_set 0]\<rparr> = Some False
   \<and> is_T [''int'', ''noncopyable''] ''noncopyable''
        \<lparr>buffer = None :: (string \<times> nat) option, discriminator = 0,
         trace = [Destroyed ''int'', Discriminator_set 0]\<rparr> = Some False
   \<and> trace (variant_dtor [''int'', ''noncopyable'']
        \<lparr>buffer = None :: (string \<times> nat) option, discriminator = 0,
         trace = [Destroyed ''int'', Discriminator_set 0]\<rparr>)
       = [Destroyed ''int'', Discriminator_set 0, Discriminator_set 0]"
proof -
  let ?Types = "[''int'', ''noncopyable'']"
  let ?v = "\<lparr>buffer = Some (''int'', 42 :: nat), discriminator = 1, trace = []\<rparr>"
  have h1: "holds ?Types ''int'' 42 ?v" by (simp add: variant_eval)
  have h2: "''noncopyable'' \<in> set ?Types" by simp
  have h3: "''noncopyable'' \<noteq> ''int''" by simp
  have h4: "construct test_members lvalue ''noncopyable'' 0 = Inl ''copied_noncopyable''"
    by (simp add: variant_eval)
  from assignment_exception_leaves_empty [OF h1 h2 h3 h4] h1 h4 show ?thesis
    by (simp add: variant_eval)
qed

lemma visit_impl_empty:
  "discriminator v = 0 \<Longrightarrow> Ts \<noteq> [] \<Longrightarrow> set Ts \<subseteq> set Types \<Longrightarrow>
   variant_visit_impl Types v vis Ts = Inl empty_variant"
proof (induction Ts)
  case Nil
  then show ?case by simp
next
  case (Cons h t)
  then have "is_T Types h v = Some False" by (simp add: is_T_empty)
  with Cons show ?case by (cases "t = []") simp_all
qed

text \<open>
  C3. On a variant whose discriminator is 0, \<^verbatim>\<open>get<T>()\<close>, for every alternative
  \<open>T\<close>, and \<^verbatim>\<open>visit\<close> throw \<^verbatim>\<open>empty_variant\<close>, which is neither the failed
  assertion nor any other failure; after \<^verbatim>\<open>destroy()\<close> on any variant, \<^verbatim>\<open>get<T>()\<close>
  throws it.
\<close>

theorem empty_variant_access:
  assumes "get_discriminator v = 0" and "T \<in> set Types"
  shows "get Types T v = Inl empty_variant
       \<and> visit Types v vis = Inl empty_variant
       \<and> get Types T (variant_destroy Types w) = Inl empty_variant"
proof -
  from assms have d: "discriminator v = 0" by (simp add: get_discriminator_def)
  from assms(2) d have "get Types T v = Inl empty_variant"
    by (simp add: get_def is_T_empty empty_def get_discriminator_def)
  moreover from assms(2) have "Types \<noteq> []" by auto
  with d have "visit Types v vis = Inl empty_variant"
    by (simp add: visit_def visit_impl_empty)
  moreover from assms(2) have "get Types T (variant_destroy Types w) = Inl empty_variant"
    by (simp add: get_def is_T_empty empty_def get_discriminator_def variant_destroy_discriminator)
  ultimately show ?thesis by simp
qed

theorem empty_variant_access_witness:
  "get_discriminator \<lparr>buffer = None :: (string \<times> nat) option, discriminator = 0, trace = []\<rparr> = 0
   \<and> ''double'' \<in> set [''int'', ''double'', ''string'']
   \<and> get [''int'', ''double'', ''string''] ''double''
        \<lparr>buffer = None :: (string \<times> nat) option, discriminator = 0, trace = []\<rparr>
       = (Inl empty_variant :: unit failure + nat)
   \<and> visit [''int'', ''double'', ''string'']
        \<lparr>buffer = None :: (string \<times> nat) option, discriminator = 0, trace = []\<rparr>
        (\<lambda>T obj. Inr obj)
       = (Inl empty_variant :: unit failure + nat)
   \<and> get [''int'', ''double'', ''string''] ''double''
        (variant_destroy [''int'', ''double'', ''string'']
           \<lparr>buffer = Some (''double'', 3 :: nat), discriminator = 2, trace = []\<rparr>)
       = (Inl empty_variant :: unit failure + nat)"
proof -
  let ?Types = "[''int'', ''double'', ''string'']"
  let ?v = "\<lparr>buffer = None :: (string \<times> nat) option, discriminator = 0, trace = []\<rparr>"
  have h1: "get_discriminator ?v = 0" by (simp add: get_discriminator_def)
  have h2: "''double'' \<in> set ?Types" by simp
  from empty_variant_access [OF h1 h2,
      of "\<lambda>T obj. Inr obj" "\<lparr>buffer = Some (''double'', 3 :: nat), discriminator = 2, trace = []\<rparr>"]
    h1 show ?thesis by simp
qed

subsection \<open>Reachable states\<close>

lemma Discriminator_bound:
  assumes "Discriminator Types T = Some D" and "length Types \<le> 255"
  shows "D \<le> 255"
  using Discriminator_nth [OF assms(1)] Discriminator_positive [OF assms(1)] assms(2) by arith

lemma discriminates_destroy:
  assumes "discriminates Types v"
  shows "buffer (variant_destroy Types v) = None \<and> discriminator (variant_destroy Types v) = 0"
proof (cases "buffer v")
  case None
  then show ?thesis by (simp add: variant_destroy_buffer variant_destroy_discriminator)
next
  case (Some p)
  obtain A a where p: "p = (A, a)" by (cases p)
  with Some assms have D: "Discriminator Types A = Some (unat (discriminator v))"
    by (simp add: discriminates_def)
  then have "A \<in> set Types" using Discriminator_nth nth_mem by metis
  moreover from D have "hit Types v A" by (simp add: hit_def)
  ultimately have "filter (hit Types v) Types \<noteq> []" by (auto simp: filter_empty_conv)
  then show ?thesis by (simp add: variant_destroy_buffer variant_destroy_discriminator)
qed

lemma discriminates_after_destroy: "discriminates Types v \<Longrightarrow> discriminates Types (variant_destroy Types v)"
  using discriminates_destroy [of Types v] by (simp add: discriminates_def)

lemma discriminates_new:
  assumes "Discriminator Types T = Some D" and "length Types \<le> 255"
  shows "discriminates Types (set_discriminator (placement_new w T obj) (of_nat D))"
  using assms Discriminator_bound [OF assms]
  by (simp add: discriminates_def set_discriminator_def placement_new_def unat_of_nat_byte)

lemma discriminates_assign:
  assumes "length Types \<le> 255" and "discriminates Types v"
    and "choice_assign M Types vc T value v = (outcome, v')"
  shows "discriminates Types v'"
proof (cases "Discriminator Types T")
  case None
  with assms show ?thesis by (simp add: choice_assign_def)
next
  case (Some D)
  show ?thesis
  proof (cases "unat (get_discriminator v) = D")
    case True
    with Some assms(2,3) show ?thesis
      by (auto simp: choice_assign_def discriminates_def get_discriminator_def
               split: option.splits prod.splits if_splits)
  next
    case False
    show ?thesis
    proof (cases "construct M vc T value")
      case (Inl x)
      with Some False assms(3) have "v' = variant_destroy Types v"
        by (simp add: choice_assign_throws)
      with assms(2) show ?thesis by (simp add: discriminates_after_destroy)
    next
      case (Inr obj)
      with Some False assms(3)
      have "v' = set_discriminator (placement_new (variant_destroy Types v) T obj) (of_nat D)"
        by (simp add: choice_assign_other)
      with Some assms(1) show ?thesis by (simp add: discriminates_new)
    qed
  qed
qed

lemma discriminates_init: "discriminates Types storage_init"
  by (simp add: discriminates_def storage_init_def)

lemma reachable_discriminates:
  assumes "length Types \<le> 255" and "reachable M Types v"
  shows "discriminates Types v"
  using assms(2)
proof (induction rule: reachable.induct)
  case storage
  show ?case by (rule discriminates_init)
next
  case (from_value vc T "value" v)
  then show ?case
    using assms(1) by (auto simp: choice_ctor_def discriminates_new split: option.splits sum.splits)
next
  case (default v)
  then show ?case
    using assms(1) discriminates_assign [OF assms(1) discriminates_init]
    by (auto simp: variant_default_ctor_def split: option.splits sum.splits prod.splits)
next
  case (assigned v vc T "value" outcome v')
  then show ?case using assms(1) discriminates_assign by metis
next
  case (destroyed v)
  then show ?case by (simp add: discriminates_after_destroy)
qed

lemma discriminates_active:
  assumes "distinct Types" and "discriminates Types v"
  shows "active_alternative Types v = map_option fst (buffer v)"
proof (cases "buffer v")
  case None
  with assms(2) show ?thesis
    by (simp add: discriminates_def active_alternative_def empty_def get_discriminator_def)
next
  case (Some p)
  obtain A a where p: "p = (A, a)" by (cases p)
  with Some assms(2) have D: "Discriminator Types A = Some (unat (discriminator v))"
    by (simp add: discriminates_def)
  then have A: "A \<in> set Types" using Discriminator_nth nth_mem by metis
  from D have "hit Types v A" by (simp add: hit_def)
  with A have "A \<in> set (filter (hit Types v) Types)" by simp
  with hit_active [OF assms(1), of v] have "active_alternative Types v = Some A"
    by (cases "active_alternative Types v") simp_all
  with Some p show ?thesis by simp
qed

text \<open>
  C2, as amended. Take a variant with at most 255 alternatives, pairwise different
  types, in a state its constructors, assignments and \<^verbatim>\<open>destroy\<close> reach, and let \<open>D\<close>
  be the index of \<open>T\<close> plus one. If the discriminator is \<open>D\<close>, the buffer holds a \<open>T\<close>,
  and assigning a \<open>T\<close> assigns onto that object and leaves the discriminator as it is,
  with no destructor call and no construction. In any other state, when the construction
  returns, the assignment first calls the destructor of the active alternative, which is
  the type of the object in the buffer, if there is one, and sets the discriminator to
  0, then constructs the \<open>T\<close> in the buffer, then sets the discriminator to \<open>D\<close>, in that
  order.
\<close>

theorem assignment_transition:
  assumes "length Types \<le> 255" and "distinct Types" and "reachable M Types v"
    and "Discriminator Types T = Some D"
  shows "(unat (get_discriminator v) = D
          \<longrightarrow> (\<exists>target. buffer v = Some (T, target)
                 \<and> choice_assign M Types vc T value v
                    = (map_option thrown (fst (assign M vc T target value)),
                       v\<lparr>buffer := Some (T, snd (assign M vc T target value)),
                         trace := trace v @ [Assigned T value]\<rparr>)
                 \<and> get_discriminator (snd (choice_assign M Types vc T value v))
                    = get_discriminator v))
       \<and> (unat (get_discriminator v) \<noteq> D \<and> construct M vc T value = Inr obj
          \<longrightarrow> (\<exists>v'. choice_assign M Types vc T value v = (None, v')
                 \<and> active_alternative Types v = map_option fst (buffer v)
                 \<and> trace v' = trace v
                      @ (case active_alternative Types v of None \<Rightarrow> [] | Some A \<Rightarrow> [Destroyed A])
                      @ [Discriminator_set 0, Constructed T obj, Discriminator_set (of_nat D)]
                 \<and> unat (get_discriminator v') = D
                 \<and> buffer v' = Some (T, obj)
                 \<and> is_T Types T v' = Some True))"
proof (intro conjI impI)
  have inv: "discriminates Types v" using assms(1,3) by (rule reachable_discriminates)
  assume a: "unat (get_discriminator v) = D"
  with assms(4) have d: "Discriminator Types T = Some (unat (discriminator v))"
    by (simp add: get_discriminator_def)
  from a Discriminator_positive [OF assms(4)] have "discriminator v \<noteq> 0"
    by (auto simp: get_discriminator_def)
  with inv obtain A target where b: "buffer v = Some (A, target)"
      and A: "Discriminator Types A = Some (unat (discriminator v))"
    by (cases "buffer v") (auto simp: discriminates_def)
  from A d have "A = T" by (rule Discriminator_inject)
  with b have bT: "buffer v = Some (T, target)" by simp
  have r: "choice_assign M Types vc T value v
      = (map_option thrown (fst (assign M vc T target value)),
         v\<lparr>buffer := Some (T, snd (assign M vc T target value)),
           trace := trace v @ [Assigned T value]\<rparr>)"
    using choice_assign_in_place [OF assms(4) a bT, of M vc "value"
        "fst (assign M vc T target value)" "snd (assign M vc T target value)"]
    by simp
  then have "get_discriminator (snd (choice_assign M Types vc T value v)) = get_discriminator v"
    by (simp add: get_discriminator_def)
  with bT r show "\<exists>target. buffer v = Some (T, target)
                 \<and> choice_assign M Types vc T value v
                    = (map_option thrown (fst (assign M vc T target value)),
                       v\<lparr>buffer := Some (T, snd (assign M vc T target value)),
                         trace := trace v @ [Assigned T value]\<rparr>)
                 \<and> get_discriminator (snd (choice_assign M Types vc T value v))
                    = get_discriminator v"
    by blast
next
  have inv: "discriminates Types v" using assms(1,3) by (rule reachable_discriminates)
  assume a: "unat (get_discriminator v) \<noteq> D \<and> construct M vc T value = Inr obj"
  let ?v' = "set_discriminator (placement_new (variant_destroy Types v) T obj) (of_nat D)"
  from a have r: "choice_assign M Types vc T value v = (None, ?v')"
    using choice_assign_other [OF assms(4), of v M vc "value" obj] by blast
  have act: "active_alternative Types v = map_option fst (buffer v)"
    using assms(2) inv by (rule discriminates_active)
  have h: "map Destroyed (filter (hit Types v) Types)
      = (case active_alternative Types v of None \<Rightarrow> [] | Some A \<Rightarrow> [Destroyed A])"
    using assms(2) by (simp add: hit_active split: option.splits)
  have t: "trace ?v' = trace v
      @ (case active_alternative Types v of None \<Rightarrow> [] | Some A \<Rightarrow> [Destroyed A])
      @ [Discriminator_set 0, Constructed T obj, Discriminator_set (of_nat D)]"
    by (simp add: set_discriminator_def placement_new_def variant_destroy_trace h)
  have d: "unat (get_discriminator ?v') = D"
    using Discriminator_bound [OF assms(4,1)]
    by (simp add: set_discriminator_def get_discriminator_def unat_of_nat_byte)
  have b: "buffer ?v' = Some (T, obj)"
    by (simp add: set_discriminator_def placement_new_def)
  from d assms(4) have i: "is_T Types T ?v' = Some True" by (simp add: is_T_def)
  from r act t d b i show "\<exists>v'. choice_assign M Types vc T value v = (None, v')
                 \<and> active_alternative Types v = map_option fst (buffer v)
                 \<and> trace v' = trace v
                      @ (case active_alternative Types v of None \<Rightarrow> [] | Some A \<Rightarrow> [Destroyed A])
                      @ [Discriminator_set 0, Constructed T obj, Discriminator_set (of_nat D)]
                 \<and> unat (get_discriminator v') = D
                 \<and> buffer v' = Some (T, obj)
                 \<and> is_T Types T v' = Some True"
    by blast
qed

theorem assignment_transition_witness:
  "length [''int'', ''double'', ''string''] \<le> 255
   \<and> distinct [''int'', ''double'', ''string'']
   \<and> reachable test_members [''int'', ''double'', ''string'']
        \<lparr>buffer = Some (''int'', 42), discriminator = 1,
         trace = [Constructed ''int'' 42, Discriminator_set 1]\<rparr>
   \<and> Discriminator [''int'', ''double'', ''string''] ''int'' = Some 1
   \<and> choice_assign test_members [''int'', ''double'', ''string''] lvalue ''int'' 7
        \<lparr>buffer = Some (''int'', 42), discriminator = 1,
         trace = [Constructed ''int'' 42, Discriminator_set 1]\<rparr>
       = (None, \<lparr>buffer = Some (''int'', 7), discriminator = 1,
                 trace = [Constructed ''int'' 42, Discriminator_set 1, Assigned ''int'' 7]\<rparr>)
   \<and> Discriminator [''int'', ''double'', ''string''] ''string'' = Some 3
   \<and> choice_assign test_members [''int'', ''double'', ''string''] rvalue ''string'' 9
        \<lparr>buffer = Some (''int'', 42), discriminator = 1,
         trace = [Constructed ''int'' 42, Discriminator_set 1]\<rparr>
       = (None, \<lparr>buffer = Some (''string'', 9), discriminator = 3,
                 trace = [Constructed ''int'' 42, Discriminator_set 1, Destroyed ''int'',
                          Discriminator_set 0, Constructed ''string'' 9,
                          Discriminator_set 3]\<rparr>)"
proof -
  let ?Types = "[''int'', ''double'', ''string'']"
  let ?v = "\<lparr>buffer = Some (''int'', 42 :: nat), discriminator = 1,
             trace = [Constructed ''int'' 42, Discriminator_set 1]\<rparr>"
  have l: "length ?Types \<le> 255" by simp
  have di: "distinct ?Types" by simp
  have "choice_ctor test_members ?Types rvalue ''int'' 42 = Inr ?v"
    by (simp add: variant_eval)
  then have re: "reachable test_members ?Types ?v" by (rule reachable.from_value)
  have d1: "Discriminator ?Types ''int'' = Some 1" by (simp add: Discriminator_def)
  have d3: "Discriminator ?Types ''string'' = Some 3" by (simp add: Discriminator_def)
  from assignment_transition [OF l di re d1, of lvalue 7 9]
    assignment_transition [OF l di re d3, of rvalue 9 9]
    l di re d1 d3
  show ?thesis by (simp add: variant_eval)
qed

lemma Discriminator_upt: "k < n \<Longrightarrow> Discriminator [0..<n] k = Some (k + 1)"
  using Discriminator_distinct [of "[0..<n]" k] by simp

lemma find_index_of_upt: "k < n \<Longrightarrow> find_index_of [0..<n] k 0 = Some k"
  using find_index_of_distinct [of "[0..<n]" k 0] by simp

text \<open>
  C2 as stated fails for the alternative at index 255 of 256 alternatives: its
  \<^verbatim>\<open>Discriminator\<close> is 256, and \<^verbatim>\<open>set_discriminator\<close> stores 256 in an
  \<^verbatim>\<open>unsigned char\<close>, that is 0. Assigned to the variant constructed from a value of
  alternative 0, it leaves a discriminator that is not the index plus one, and
  \<^verbatim>\<open>is<T>()\<close> is false.
\<close>

theorem assignment_transition_counterexample:
  "length [0..<256] = 256
   \<and> find_index_of [0..<256] (255 :: nat) 0 = Some 255
   \<and> choice_ctor nothrow_members [0..<256] lvalue (0 :: nat) 5
       = Inr \<lparr>buffer = Some (0, 5), discriminator = 1,
              trace = [Constructed 0 5, Discriminator_set 1]\<rparr>
   \<and> choice_assign nothrow_members [0..<256] lvalue (255 :: nat) 7
        \<lparr>buffer = Some (0, 5), discriminator = 1,
         trace = [Constructed 0 5, Discriminator_set 1]\<rparr>
       = (None, \<lparr>buffer = Some (255, 7), discriminator = 0,
                 trace = [Constructed 0 5, Discriminator_set 1, Destroyed 0,
                          Discriminator_set 0, Constructed 255 7, Discriminator_set 0]\<rparr>)
   \<and> unat (get_discriminator \<lparr>buffer = Some (255 :: nat, 7 :: nat), discriminator = 0,
              trace = [Constructed 0 5, Discriminator_set 1, Destroyed 0,
                       Discriminator_set 0, Constructed 255 7, Discriminator_set 0]\<rparr>)
       \<noteq> 255 + 1
   \<and> is_T [0..<256] (255 :: nat) \<lparr>buffer = Some (255, 7 :: nat), discriminator = 0,
              trace = [Constructed 0 5, Discriminator_set 1, Destroyed 0,
                       Discriminator_set 0, Constructed 255 7, Discriminator_set 0]\<rparr>
       = Some False"
proof -
  let ?v = "\<lparr>buffer = Some (0 :: nat, 5 :: nat), discriminator = 1,
             trace = [Constructed 0 5, Discriminator_set 1]\<rparr>"
  have D0: "Discriminator [0..<256] (0 :: nat) = Some 1"
    using Discriminator_upt [of 0 256] by simp
  have D: "Discriminator [0..<256] (255 :: nat) = Some 256"
    using Discriminator_upt [of 255 256] by simp
  have c0: "construct nothrow_members lvalue (0 :: nat) 5 = Inr 5"
    by (simp add: construct_def nothrow_members_def)
  have c: "construct nothrow_members lvalue (255 :: nat) 7 = Inr 7"
    by (simp add: construct_def nothrow_members_def)
  from D0 c0 have ctor: "choice_ctor nothrow_members [0..<256] lvalue (0 :: nat) 5 = Inr ?v"
    by (simp add: choice_ctor_def set_discriminator_def placement_new_def storage_init_def)
  have n: "unat (get_discriminator ?v) \<noteq> 256" by (simp add: get_discriminator_def)
  have "active_alternative [0..<256] ?v = Some 0"
    by (simp add: active_alternative_def empty_def get_discriminator_def nth_element_nth)
  then have h: "filter (hit [0..<256] ?v) [0..<256] = [0]"
    using hit_active [of "[0..<256]" ?v] by simp
  have "variant_destroy [0..<256] ?v
        = \<lparr>buffer = None, discriminator = 0,
           trace = [Constructed 0 5, Discriminator_set 1, Destroyed 0, Discriminator_set 0]\<rparr>"
    by (rule variant_storage.equality)
       (simp_all add: variant_destroy_discriminator variant_destroy_trace variant_destroy_buffer h)
  with choice_assign_other [OF D n c]
  have "choice_assign nothrow_members [0..<256] lvalue (255 :: nat) 7 ?v
       = (None, \<lparr>buffer = Some (255, 7), discriminator = 0,
                 trace = [Constructed 0 5, Discriminator_set 1, Destroyed 0,
                          Discriminator_set 0, Constructed 255 7, Discriminator_set 0]\<rparr>)"
    by (simp add: set_discriminator_def placement_new_def)
  with ctor D find_index_of_upt [of 255 256] show ?thesis
    by (simp add: is_T_def get_discriminator_def)
qed

text \<open>
  C4, as amended. For a non-empty list of alternatives whose first type can be
  default-constructed and moved, the default constructor gives a variant with
  discriminator 1 that holds the first alternative, constructed in the buffer from the
  default-constructed temporary; it is not empty. Constructing a variant from a value of
  an alternative \<open>T\<close> whose index plus one is at most 255 gives the discriminator index
  plus one and the \<open>T\<close> constructed in the buffer.
\<close>

theorem construction_discriminator:
  "(front Types = Some First \<and> default_ctor M First = Inr temporary
      \<and> move_ctor M First temporary = Inr obj
    \<longrightarrow> (\<exists>v. variant_default_ctor M Types = Inr v
           \<and> get_discriminator v = 1
           \<and> buffer v = Some (First, obj)
           \<and> \<not> empty v
           \<and> is_T Types First v = Some True))
   \<and> (Discriminator Types T = Some D \<and> D \<le> 255 \<and> construct M vc T value = Inr obj'
    \<longrightarrow> (\<exists>v. choice_ctor M Types vc T value = Inr v
           \<and> unat (get_discriminator v) = D
           \<and> buffer v = Some (T, obj')
           \<and> is_T Types T v = Some True))"
proof (intro conjI impI)
  assume a: "front Types = Some First \<and> default_ctor M First = Inr temporary
      \<and> move_ctor M First temporary = Inr obj"
  then obtain Tail where T: "Types = First # Tail" by (cases Types) simp_all
  then have D: "Discriminator Types First = Some 1" by (simp add: Discriminator_def)
  let ?v = "set_discriminator (placement_new (variant_destroy Types storage_init) First obj) (of_nat 1)"
  from a have "construct M rvalue First temporary = Inr obj" by (simp add: construct_def)
  with D have "choice_assign M Types rvalue First temporary storage_init = (None, ?v)"
    by (simp add: choice_assign_def storage_init_def get_discriminator_def)
  with a have "variant_default_ctor M Types = Inr ?v" by (simp add: variant_default_ctor_def)
  moreover have "get_discriminator ?v = 1" "buffer ?v = Some (First, obj)"
    by (simp_all add: set_discriminator_def get_discriminator_def placement_new_def)
  moreover have "\<not> empty ?v" "is_T Types First ?v = Some True"
    using D by (simp_all add: empty_def is_T_def set_discriminator_def get_discriminator_def)
  ultimately show "\<exists>v. variant_default_ctor M Types = Inr v
           \<and> get_discriminator v = 1
           \<and> buffer v = Some (First, obj)
           \<and> \<not> empty v
           \<and> is_T Types First v = Some True"
    by blast
next
  assume a: "Discriminator Types T = Some D \<and> D \<le> 255 \<and> construct M vc T value = Inr obj'"
  let ?v = "set_discriminator (placement_new storage_init T obj') (of_nat D)"
  from a have "choice_ctor M Types vc T value = Inr ?v" by (simp add: choice_ctor_def)
  moreover from a have d: "unat (get_discriminator ?v) = D"
    by (simp add: set_discriminator_def get_discriminator_def unat_of_nat_byte)
  moreover have "buffer ?v = Some (T, obj')"
    by (simp add: set_discriminator_def placement_new_def)
  moreover from a d have "is_T Types T ?v = Some True" by (simp add: is_T_def)
  ultimately show "\<exists>v. choice_ctor M Types vc T value = Inr v
           \<and> unat (get_discriminator v) = D
           \<and> buffer v = Some (T, obj')
           \<and> is_T Types T v = Some True"
    by blast
qed

theorem construction_discriminator_witness:
  "front [''int'', ''double'', ''string''] = Some ''int''
   \<and> variant_default_ctor test_members [''int'', ''double'', ''string'']
       = Inr \<lparr>buffer = Some (''int'', 0), discriminator = 1,
              trace = [Discriminator_set 0, Constructed ''int'' 0, Discriminator_set 1]\<rparr>
   \<and> Discriminator [''int'', ''double'', ''string''] ''string'' = Some 3
   \<and> choice_ctor test_members [''int'', ''double'', ''string''] lvalue ''string'' 9
       = Inr \<lparr>buffer = Some (''string'', 9), discriminator = 3,
              trace = [Constructed ''string'' 9, Discriminator_set 3]\<rparr>"
  using construction_discriminator [of "[''int'', ''double'', ''string'']" "''int''" test_members
      0 0 "''string''" 3 lvalue 9 9]
  by (simp add: variant_eval)

text \<open>
  C4 as stated fails for the alternative at index 255 of 256 alternatives: the variant
  constructed from its value has discriminator 0, not 256, and reports empty.
\<close>

theorem construction_discriminator_counterexample:
  "find_index_of [0..<256] (255 :: nat) 0 = Some 255
   \<and> choice_ctor nothrow_members [0..<256] lvalue (255 :: nat) 7
       = Inr \<lparr>buffer = Some (255, 7), discriminator = 0,
              trace = [Constructed 255 7, Discriminator_set 0]\<rparr>
   \<and> unat (get_discriminator \<lparr>buffer = Some (255 :: nat, 7 :: nat), discriminator = 0,
              trace = [Constructed 255 7, Discriminator_set 0]\<rparr>) \<noteq> 255 + 1
   \<and> is_T [0..<256] (255 :: nat) \<lparr>buffer = Some (255, 7 :: nat), discriminator = 0,
              trace = [Constructed 255 7, Discriminator_set 0]\<rparr> = Some False
   \<and> empty \<lparr>buffer = Some (255 :: nat, 7 :: nat), discriminator = 0,
              trace = [Constructed 255 7, Discriminator_set 0]\<rparr>"
proof -
  have D: "Discriminator [0..<256] (255 :: nat) = Some 256"
    using Discriminator_upt [of 255 256] by simp
  have "construct nothrow_members lvalue (255 :: nat) 7 = Inr 7"
    by (simp add: construct_def nothrow_members_def)
  with D have "choice_ctor nothrow_members [0..<256] lvalue (255 :: nat) 7
       = Inr \<lparr>buffer = Some (255, 7), discriminator = 0,
              trace = [Constructed 255 7, Discriminator_set 0]\<rparr>"
    by (simp add: choice_ctor_def set_discriminator_def placement_new_def storage_init_def)
  with D find_index_of_upt [of 255 256] show ?thesis
    by (simp add: is_T_def empty_def get_discriminator_def)
qed

end
